theory Spec2Isabelle
  imports Complex_Main
begin

section \<open>The slice sampler of pyslicer.py\<close>

text \<open>
  The development embeds the one function of the repository, \<open>slicer\<close> in
  \<^verbatim>\<open>src/pyslicer.py\<close>, phase by phase and in the order of its lines.

  Numbers. Positions and the width \<open>w\<close> are float64 values, read as the reals they
  denote. Every sum, difference and product of positions (lines 50, 51, 56, 59 and 67) is
  rounded to the nearest float64, ties to even, as the processor does; the exponent range
  is taken unbounded (no overflow, no subnormal numbers) and the sign of zero is not
  kept. Two quantities are read exactly: the product \<open>m*V\<close> of line 53, of which only
  the integer part is used, and the slice height \<open>y0 + log(U1)\<close> of line 47, whose
  logarithm is a library function. Values of the log-density and slice heights are
  compared with NaN and the infinities in play (\<open>np.log(0.0)\<close> is \<open>-inf\<close>, a density
  may return \<open>-inf\<close> or NaN), so they get a type of their own.

  Randomness. \<open>numpy.random.rand\<close> reads a process-wide generator. The embedding
  passes the stream of values it will return as a function \<open>rng\<close> from the number of
  draws made so far to the next value, and keeps that number in the state.

  The log-density \<open>g\<close> is a function of the point and the extra argument: it answers
  at every point, changes nothing and makes no draw.

  Non-termination. The loop \<open>while True\<close> of line 64 and the loop \<open>while i < N\<close> of
  line 42 may run forever; both are partial functions into \<open>option\<close>, where \<open>None\<close>
  stands for a run that never returns.

  Names are those of the source, but for \<open>dim\<close>, which HOL already uses and which is
  \<open>ndim\<close> here, and for the parameter \<open>x0\<close>, which is \<open>x\<close> where the state's
  field \<open>x0\<close> is in scope.
\<close>

subsection \<open>Float values of the density\<close>

datatype pyfloat = Fin real | PInf | NInf | NaN

text \<open>float64 addition on these values (\<open>inf + -inf\<close> is NaN, NaN is absorbing).\<close>

fun fadd :: "pyfloat \<Rightarrow> pyfloat \<Rightarrow> pyfloat" where
  "fadd NaN _ = NaN"
| "fadd _ NaN = NaN"
| "fadd (Fin a) (Fin b) = Fin (a + b)"
| "fadd PInf NInf = NaN"
| "fadd NInf PInf = NaN"
| "fadd PInf _ = PInf"
| "fadd _ PInf = PInf"
| "fadd NInf _ = NInf"
| "fadd _ NInf = NInf"

text \<open>The comparison \<open><\<close> of float64: false as soon as one side is NaN.\<close>

fun flt :: "pyfloat \<Rightarrow> pyfloat \<Rightarrow> bool" where
  "flt (Fin a) (Fin b) = (a < b)"
| "flt NInf (Fin _) = True"
| "flt NInf PInf = True"
| "flt (Fin _) PInf = True"
| "flt _ _ = False"

text \<open>\<open>np.log\<close> on a draw: \<open>-inf\<close> at zero, NaN below it (numpy warns and goes on).\<close>

definition np_log :: "real \<Rightarrow> pyfloat" where
  "np_log u = (if u < 0 then NaN else if u = 0 then NInf else Fin (ln u))"

subsection \<open>float64 arithmetic on positions\<close>

text \<open>
  The binary exponent of a non-zero real, \<open>2^e \<le> |x| < 2^(e+1)\<close>, and rounding to the
  nearest integer with ties to the even one.
\<close>

definition expo :: "real \<Rightarrow> int" where
  "expo x = \<lfloor>log 2 \<bar>x\<bar>\<rfloor>"

definition rne :: "real \<Rightarrow> int" where
  "rne r =
     (let f = \<lfloor>r\<rfloor>
      in if r - of_int f < 1 / 2 then f
         else if 1 / 2 < r - of_int f then f + 1
         else if even f then f else f + 1)"

text \<open>
  Rounding to float64: the nearest real with a significand of 53 bits at the exponent of
  \<open>x\<close>, ties to the even significand.
\<close>

definition fl64 :: "real \<Rightarrow> real" where
  "fl64 x = (if x = 0 then 0 else of_int (rne (x * 2 powi (52 - expo x))) * 2 powi (expo x - 52))"

text \<open>
  The float64 operations \<open>+\<close>, \<open>-\<close> and \<open>*\<close>. In float64 \<open>a + 0.0\<close>, \<open>0.0 + b\<close>
  and \<open>a - 0.0\<close> are the other operand itself; the first branches say so of every
  operand, so that no statement has to assume that the caller's numbers are float64
  values.
\<close>

definition r_add :: "real \<Rightarrow> real \<Rightarrow> real" where
  "r_add a b = (if b = 0 then a else if a = 0 then b else fl64 (a + b))"

definition r_sub :: "real \<Rightarrow> real \<Rightarrow> real" where
  "r_sub a b = (if b = 0 then a else fl64 (a - b))"

definition r_mul :: "real \<Rightarrow> real \<Rightarrow> real" where
  "r_mul a b = fl64 (a * b)"

subsection \<open>One-dimensional arrays\<close>

type_synonym vec = "real list"

text \<open>
  Elementwise arithmetic of two one-dimensional arrays with numpy's broadcasting: equal
  lengths combine pointwise, an operand of length one is stretched. Any other pair of
  shapes raises in numpy; \<open>slicer\<close> rejects such an \<open>x0\<close> at line 32, before the
  first arithmetic, so the last branch is never taken in a run.
\<close>

definition bcast :: "(real \<Rightarrow> real \<Rightarrow> real) \<Rightarrow> vec \<Rightarrow> vec \<Rightarrow> vec" where
  "bcast f a b =
     (if length a = length b then map2 f a b
      else if length a = 1 then map (f (hd a)) b
      else if length b = 1 then map (\<lambda>x. f x (hd b)) a
      else [])"

definition vadd :: "vec \<Rightarrow> vec \<Rightarrow> vec" where
  "vadd a b = bcast r_add a b"

definition vsub :: "vec \<Rightarrow> vec \<Rightarrow> vec" where
  "vsub a b = bcast r_sub a b"

text \<open>A scalar times an array, \<open>c * a\<close>.\<close>

definition smul :: "real \<Rightarrow> vec \<Rightarrow> vec" where
  "smul c a = map (\<lambda>x. r_mul c x) a"

text \<open>An array times a scalar, \<open>a * c\<close>.\<close>

definition muls :: "vec \<Rightarrow> real \<Rightarrow> vec" where
  "muls a c = map (\<lambda>x. r_mul x c) a"

subsection \<open>Errors and the state of the loops\<close>

text \<open>
  \<open>ValueError\<close> and \<open>IndexError\<close> are what numpy raises at lines 30 to 36.
  \<open>InvalidParameter\<close> is the error kind of the specification; no line of
  \<open>slicer\<close> raises it, and it is here only so that statements about it can be written.
\<close>

datatype error = ValueError | IndexError | InvalidParameter

text \<open>
  One entry of the log kept beside the run: the index written, the axis, the point before
  the move, the number of draws made when the step began and the slice height.
\<close>

record step_log =
  t_i :: nat
  t_d :: nat
  t_x :: vec
  t_k :: nat
  t_y :: pyfloat

text \<open>
  The variables that live across iterations: the arrays \<open>xs\<close> and \<open>likelies\<close>, the
  current point \<open>x0\<close>, the axis vector \<open>way\<close>, the index \<open>i\<close> (it starts at one and
  only grows, hence a natural number) and \<open>k\<close>, the number of draws made so far. The
  scratch arrays \<open>x1\<close>, \<open>L\<close> and \<open>R\<close> are assigned in every step before they are
  read and are local to the step. The field \<open>trace\<close> has no counterpart in the source:
  it is only ever appended to, nothing reads it, and it records the slice height that
  the source throws away after each step.
\<close>

record state =
  xs :: "vec list"
  likelies :: "pyfloat list"
  x0 :: vec
  way :: vec
  i :: nat
  k :: nat
  trace :: "step_log list"

subsection \<open>Stepping out (lines 49 to 60)\<close>

text \<open>Lines 49 to 51: the first bracket, from the draw \<open>U\<close>.\<close>

definition init_bracket :: "real \<Rightarrow> vec \<Rightarrow> vec \<Rightarrow> real \<Rightarrow> vec \<times> vec" where
  "init_bracket w wy x U =
     (let L = vsub x (muls (smul w wy) U);
          R = vadd L (smul w wy)
      in (L, R))"

text \<open>
  Lines 52 to 54: the two budgets, from the draw \<open>V\<close>. \<open>np.floor\<close> returns a float
  with an integer value; the embedding keeps the integer.
\<close>

definition budgets :: "int \<Rightarrow> real \<Rightarrow> int \<times> int" where
  "budgets m V = (let J = \<lfloor>real_of_int m * V\<rfloor>; K = (m - 1) - J in (J, K))"

text \<open>Lines 55 to 57.\<close>

function expand_left ::
  "(vec \<Rightarrow> 'e \<Rightarrow> pyfloat) \<Rightarrow> 'e \<Rightarrow> real \<Rightarrow> vec \<Rightarrow> pyfloat \<Rightarrow> vec \<Rightarrow> int \<Rightarrow> vec \<times> int" where
  "expand_left g xargs w wy y L J =
     (if J > 0 \<and> flt y (g L xargs)
      then expand_left g xargs w wy y (vsub L (smul w wy)) (J - 1)
      else (L, J))"
  by pat_completeness auto
termination
  by (relation "measure (\<lambda>(g, xargs, w, wy, y, L, J). nat J)") auto

text \<open>Lines 58 to 60.\<close>

function expand_right ::
  "(vec \<Rightarrow> 'e \<Rightarrow> pyfloat) \<Rightarrow> 'e \<Rightarrow> real \<Rightarrow> vec \<Rightarrow> pyfloat \<Rightarrow> vec \<Rightarrow> int \<Rightarrow> vec \<times> int" where
  "expand_right g xargs w wy y R K =
     (if K > 0 \<and> flt y (g R xargs)
      then expand_right g xargs w wy y (vadd R (smul w wy)) (K - 1)
      else (R, K))"
  by pat_completeness auto
termination
  by (relation "measure (\<lambda>(g, xargs, w, wy, y, R, K). nat K)") auto

text \<open>
  Lines 49 to 60 together: the bracket after stepping out, with what is left of the two
  budgets. The draws \<open>U\<close> and \<open>V\<close> are the second and third of the step.
\<close>

definition step_out ::
  "(vec \<Rightarrow> 'e \<Rightarrow> pyfloat) \<Rightarrow> 'e \<Rightarrow> real \<Rightarrow> int \<Rightarrow> vec \<Rightarrow> pyfloat \<Rightarrow> vec \<Rightarrow> real \<Rightarrow> real
     \<Rightarrow> (vec \<times> int) \<times> (vec \<times> int)" where
  "step_out g xargs w m wy y x U V =
     (let (L, R) = init_bracket w wy x U;
          (J, K) = budgets m V
      in (expand_left g xargs w wy y L J, expand_right g xargs w wy y R K))"

text \<open>
  How many times each of the two loops widens the bracket. These two functions repeat
  the loop tests of lines 55 and 58 and count the rounds; the sampler does not call
  them, they name the quantity the statements about the bracket width speak of.
\<close>

function left_expansions ::
  "(vec \<Rightarrow> 'e \<Rightarrow> pyfloat) \<Rightarrow> 'e \<Rightarrow> real \<Rightarrow> vec \<Rightarrow> pyfloat \<Rightarrow> vec \<Rightarrow> int \<Rightarrow> nat" where
  "left_expansions g xargs w wy y L J =
     (if J > 0 \<and> flt y (g L xargs)
      then Suc (left_expansions g xargs w wy y (vsub L (smul w wy)) (J - 1))
      else 0)"
  by pat_completeness auto
termination
  by (relation "measure (\<lambda>(g, xargs, w, wy, y, L, J). nat J)") auto

function right_expansions ::
  "(vec \<Rightarrow> 'e \<Rightarrow> pyfloat) \<Rightarrow> 'e \<Rightarrow> real \<Rightarrow> vec \<Rightarrow> pyfloat \<Rightarrow> vec \<Rightarrow> int \<Rightarrow> nat" where
  "right_expansions g xargs w wy y R K =
     (if K > 0 \<and> flt y (g R xargs)
      then Suc (right_expansions g xargs w wy y (vadd R (smul w wy)) (K - 1))
      else 0)"
  by pat_completeness auto
termination
  by (relation "measure (\<lambda>(g, xargs, w, wy, y, R, K). nat K)") auto

subsection \<open>Shrinkage (lines 63 to 73)\<close>

text \<open>
  \<open>Lbar\<close> and \<open>Rbar\<close> start as \<open>L\<close> and \<open>R\<close> (line 63), \<open>xc\<close> is the current
  point \<open>x0\<close> and \<open>n\<close> the number of draws made so far, so each round draws
  \<open>U = rng n\<close>. The loop has no other exit than the acceptance test.
\<close>

partial_function (option) shrink ::
  "(vec \<Rightarrow> 'e \<Rightarrow> pyfloat) \<Rightarrow> 'e \<Rightarrow> (nat \<Rightarrow> real) \<Rightarrow> pyfloat \<Rightarrow> vec \<Rightarrow> nat \<Rightarrow> vec \<Rightarrow> vec \<Rightarrow> nat
     \<Rightarrow> (vec \<times> nat) option" where
  "shrink g xargs rng y xc d Lbar Rbar n =
     (let U = rng n;
          x1 = vadd Lbar (smul U (vsub Rbar Lbar))
      in if flt y (g x1 xargs) then Some (x1, Suc n)
         else if x1 ! d < xc ! d then shrink g xargs rng y xc d x1 Rbar (Suc n)
         else shrink g xargs rng y xc d Lbar x1 (Suc n))"

subsection \<open>One coordinate step (lines 44 to 77)\<close>

text \<open>
  The three draws of lines 47, 49 and 52 are \<open>rng k\<close>, \<open>rng (k + 1)\<close> and
  \<open>rng (k + 2)\<close>; shrinkage goes on from \<open>k + 3\<close>. The two stores of lines 74 and 75
  are list updates at \<open>i\<close>: the loop tests of lines 42 and 78 keep \<open>i\<close> below \<open>N\<close>
  at every store, so none of them leaves the arrays.
\<close>

definition coord_step ::
  "(vec \<Rightarrow> 'e \<Rightarrow> pyfloat) \<Rightarrow> 'e \<Rightarrow> (nat \<Rightarrow> real) \<Rightarrow> real \<Rightarrow> int \<Rightarrow> nat \<Rightarrow> state \<Rightarrow> state option" where
  "coord_step g xargs rng w m d st =
     (let wy = (smul 0 (way st))[d := 1];
          y0 = g (x0 st) xargs;
          y = fadd y0 (np_log (rng (k st)));
          ((L, J), (R, K)) = step_out g xargs w m wy y (x0 st) (rng (k st + 1)) (rng (k st + 2))
      in case shrink g xargs rng y (x0 st) d L R (k st + 3) of
           None \<Rightarrow> None
         | Some (x1, n) \<Rightarrow>
             Some \<lparr>xs = (xs st)[i st := x1],
                   likelies = (likelies st)[i st := y0],
                   x0 = x1,
                   way = wy,
                   i = i st + 1,
                   k = n,
                   trace = trace st @ [\<lparr>t_i = i st, t_d = d, t_x = x0 st, t_k = k st, t_y = y\<rparr>]\<rparr>)"

subsection \<open>The driver (lines 30 to 43 and 78 to 81)\<close>

text \<open>
  The loop \<open>for d in range(dim)\<close> with its \<open>break\<close> at lines 78 and 79, over the
  axes that are still to come.
\<close>

fun sweep ::
  "(vec \<Rightarrow> 'e \<Rightarrow> pyfloat) \<Rightarrow> 'e \<Rightarrow> (nat \<Rightarrow> real) \<Rightarrow> real \<Rightarrow> int \<Rightarrow> int \<Rightarrow> nat list \<Rightarrow> state \<Rightarrow> state option" where
  "sweep g xargs rng w m N [] st = Some st"
| "sweep g xargs rng w m N (d # ds) st =
     (case coord_step g xargs rng w m d st of
        None \<Rightarrow> None
      | Some st' \<Rightarrow> if int (i st') \<ge> N then Some st' else sweep g xargs rng w m N ds st')"

text \<open>The loop \<open>while i < N\<close>.\<close>

partial_function (option) sweeps ::
  "(vec \<Rightarrow> 'e \<Rightarrow> pyfloat) \<Rightarrow> 'e \<Rightarrow> (nat \<Rightarrow> real) \<Rightarrow> real \<Rightarrow> int \<Rightarrow> int \<Rightarrow> nat \<Rightarrow> state \<Rightarrow> state option" where
  "sweeps g xargs rng w m N ndim st =
     (if int (i st) < N
      then Option.bind (sweep g xargs rng w m N [0..<ndim] st) (sweeps g xargs rng w m N ndim)
      else Some st)"

text \<open>
  Lines 30 to 40. \<open>xs[0,:] = x0\<close> stores \<open>x0\<close>, stretched when it has length one;
  the name \<open>x0\<close> keeps the caller's array.
\<close>

definition init_state :: "(vec \<Rightarrow> 'e \<Rightarrow> pyfloat) \<Rightarrow> 'e \<Rightarrow> nat \<Rightarrow> nat \<Rightarrow> vec \<Rightarrow> state" where
  "init_state g xargs N ndim x =
     \<lparr>xs = (replicate N (replicate ndim 0))[0 := bcast (\<lambda>a b. b) (replicate ndim 0) x],
      likelies = (replicate N (Fin 0))[0 := g x xargs],
      x0 = x,
      way = replicate ndim 0,
      i = 1,
      k = 0,
      trace = []\<rparr>"

text \<open>
  The whole function, with the final state kept. An exception leaves with its kind and
  the number of draws made until then. \<open>np.zeros\<close> refuses a negative dimension
  (line 30); row zero of an array without rows does not exist (line 32); an \<open>x0\<close>
  whose length is neither \<open>dim\<close> nor one cannot be stored in a row (line 32).
\<close>

definition slicer_run ::
  "(vec \<Rightarrow> 'e \<Rightarrow> pyfloat) \<Rightarrow> int \<Rightarrow> vec \<Rightarrow> 'e \<Rightarrow> int \<Rightarrow> real \<Rightarrow> int \<Rightarrow> (nat \<Rightarrow> real)
     \<Rightarrow> (error \<times> nat + state) option" where
  "slicer_run g ndim x xargs N w m rng =
     (if N < 0 \<or> ndim < 0 then Some (Inl (ValueError, 0))
      else if N = 0 then Some (Inl (IndexError, 0))
      else if length x \<noteq> nat ndim \<and> length x \<noteq> 1 then Some (Inl (ValueError, 0))
      else map_option Inr
             (sweeps g xargs rng w m N (nat ndim) (init_state g xargs (nat N) (nat ndim) x)))"

text \<open>What the caller sees: \<open>return xs, likelies\<close>, or the exception.\<close>

definition slicer ::
  "(vec \<Rightarrow> 'e \<Rightarrow> pyfloat) \<Rightarrow> int \<Rightarrow> vec \<Rightarrow> 'e \<Rightarrow> int \<Rightarrow> real \<Rightarrow> int \<Rightarrow> (nat \<Rightarrow> real)
     \<Rightarrow> (error + vec list \<times> pyfloat list) option" where
  "slicer g ndim x xargs N w m rng =
     map_option (map_sum fst (\<lambda>st. (xs st, likelies st))) (slicer_run g ndim x xargs N w m rng)"



subsection \<open>Invariants of the driver\<close>

text \<open>
  The shape of a state between two coordinate steps of a run with \<open>n\<close> rows of
  \<open>ndim\<close> columns: the arrays keep their allocated shape, the index stays within
  \<open>1..n\<close>, and the current point is the row written last.
\<close>

definition shaped :: "nat \<Rightarrow> nat \<Rightarrow> state \<Rightarrow> bool" where
  "shaped n ndim st \<longleftrightarrow>
     length (xs st) = n \<and> length (likelies st) = n \<and>
     (\<forall>j<n. length (xs st ! j) = ndim) \<and>
     length (x0 st) = ndim \<and> length (way st) = ndim \<and>
     1 \<le> i st \<and> i st \<le> n \<and> x0 st = xs st ! (i st - 1)"

text \<open>
  What the log entry \<open>e\<close> says about row \<open>j\<close> of the chain \<open>c\<close> and entry \<open>j\<close> of
  the likelihoods \<open>ls\<close>: the step wrote index \<open>j\<close> along axis \<open>(j - 1) mod ndim\<close>,
  started from row \<open>j - 1\<close>, drew its slice height from the log-density there, stored
  that log-density, accepted a point above the slice height, and moved along its axis
  only.
\<close>

definition step_ok ::
  "(vec \<Rightarrow> 'e \<Rightarrow> pyfloat) \<Rightarrow> 'e \<Rightarrow> (nat \<Rightarrow> real) \<Rightarrow> nat \<Rightarrow> vec list \<Rightarrow> pyfloat list \<Rightarrow> nat \<Rightarrow> step_log
     \<Rightarrow> bool" where
  "step_ok g xargs rng ndim c ls j e \<longleftrightarrow>
     t_i e = j \<and> t_d e = (j - 1) mod ndim \<and> t_d e < ndim \<and> t_x e = c ! (j - 1) \<and>
     t_y e = fadd (g (c ! (j - 1)) xargs) (np_log (rng (t_k e))) \<and>
     flt (t_y e) (g (c ! j) xargs) \<and>
     ls ! j = g (c ! (j - 1)) xargs \<and>
     (\<forall>a<ndim. a \<noteq> t_d e \<longrightarrow> c ! j ! a = c ! (j - 1) ! a)"

text \<open>Every index filled so far has its log entry, in the order of the indices.\<close>

definition logged ::
  "(vec \<Rightarrow> 'e \<Rightarrow> pyfloat) \<Rightarrow> 'e \<Rightarrow> (nat \<Rightarrow> real) \<Rightarrow> nat \<Rightarrow> state \<Rightarrow> bool" where
  "logged g xargs rng ndim st \<longleftrightarrow>
     length (trace st) = i st - 1 \<and>
     (\<forall>j. 0 < j \<and> j < i st \<longrightarrow>
        step_ok g xargs rng ndim (xs st) (likelies st) j (trace st ! (j - 1)))"

text \<open>Row zero holds the caller's point and its log-density.\<close>

definition anchored :: "(vec \<Rightarrow> 'e \<Rightarrow> pyfloat) \<Rightarrow> 'e \<Rightarrow> vec \<Rightarrow> state \<Rightarrow> bool" where
  "anchored g xargs x st \<longleftrightarrow> xs st ! 0 = x \<and> likelies st ! 0 = g x xargs"

text \<open>The three together: what holds between any two coordinate steps of a run.\<close>

definition run_inv ::
  "(vec \<Rightarrow> 'e \<Rightarrow> pyfloat) \<Rightarrow> 'e \<Rightarrow> (nat \<Rightarrow> real) \<Rightarrow> nat \<Rightarrow> nat \<Rightarrow> vec \<Rightarrow> state \<Rightarrow> bool" where
  "run_inv g xargs rng n ndim x st \<longleftrightarrow>
     shaped n ndim st \<and> logged g xargs rng ndim st \<and> anchored g xargs x st"

subsection \<open>Inputs for the examples\<close>

text \<open>
  A log-density on the plane: \<open>-inf\<close> outside the unit square, 0 on its left half and
  1 on its right half. It ignores the extra argument.
\<close>

definition box_density :: "vec \<Rightarrow> unit \<Rightarrow> pyfloat" where
  "box_density v u =
     (if v ! 0 < 0 \<or> 1 < v ! 0 \<or> v ! 1 < 0 \<or> 1 < v ! 1 then NInf
      else if v ! 0 < 1 / 2 then Fin 0 else Fin 1)"

text \<open>A stream of draws, all in the unit interval.\<close>

definition draws :: "nat \<Rightarrow> real" where
  "draws n =
     (if n = 1 \<or> n = 2 then 1 / 4 else if n = 3 then 3 / 4 else if n = 7 then 0 else 1 / 2)"


definition nan_density :: "vec \<Rightarrow> unit \<Rightarrow> pyfloat" where
  "nan_density v u = NaN"


section \<open>Auxiliary facts\<close>

subsection \<open>Rounding to float64\<close>

lemma powi_powr: "(2::real) powi e = 2 powr (real_of_int e)"
  by (simp add: powr_real_of_int' )

lemma expo_eq:
  assumes "x \<noteq> 0" "2 powi e \<le> \<bar>x\<bar>" "\<bar>x\<bar> < 2 powi (e + 1)"
  shows "expo x = e"
proof -
  have "0 < \<bar>x\<bar>" using assms(1) by simp
  moreover have "2 powr (real_of_int e) \<le> \<bar>x\<bar>" using assms(2) by (simp add: powi_powr)
  moreover have "\<bar>x\<bar> < 2 powr (real_of_int e + 1)"
    using assms(3) by (simp add: powi_powr add.commute)
  ultimately show ?thesis
    unfolding expo_def by (subst floor_log_eq_powr_iff) simp_all
qed

lemma expo_bounds:
  assumes "x \<noteq> 0"
  shows "2 powi (expo x) \<le> \<bar>x\<bar>" "\<bar>x\<bar> < 2 powi (expo x + 1)"
proof -
  have "0 < \<bar>x\<bar>" using assms by simp
  then have "2 powr (real_of_int (expo x)) \<le> \<bar>x\<bar> \<and> \<bar>x\<bar> < 2 powr (real_of_int (expo x) + 1)"
    using floor_log_eq_powr_iff [of "\<bar>x\<bar>" 2 "expo x"] by (simp add: expo_def)
  then show "2 powi (expo x) \<le> \<bar>x\<bar>" "\<bar>x\<bar> < 2 powi (expo x + 1)"
    by (simp_all add: powi_powr add.commute)
qed

lemma fl64_eval:
  assumes "x \<noteq> 0" "2 powi e \<le> \<bar>x\<bar>" "\<bar>x\<bar> < 2 powi (e + 1)"
  shows "fl64 x = of_int (rne (x * 2 powi (52 - e))) * 2 powi (e - 52)"
  using expo_eq [OF assms] assms(1) by (simp add: fl64_def)

lemma rne_of_int [simp]: "rne (of_int z) = z"
  by (simp add: rne_def)

lemma rne_bounds: "of_int (rne r) \<le> r + 1 / 2" "r - 1 / 2 \<le> of_int (rne r)"
  unfolding rne_def Let_def by (auto; linarith)+

lemma rne_mono:
  assumes "r \<le> s"
  shows "rne r \<le> rne s"
proof (cases "\<lfloor>r\<rfloor> = \<lfloor>s\<rfloor>")
  case True
  then show ?thesis using assms unfolding rne_def Let_def by (auto; linarith)
next
  case False
  then have "\<lfloor>r\<rfloor> < \<lfloor>s\<rfloor>" using assms by (simp add: floor_mono less_le)
  then have "\<lfloor>r\<rfloor> + 1 \<le> \<lfloor>s\<rfloor>" by simp
  moreover have "rne r \<le> \<lfloor>r\<rfloor> + 1" unfolding rne_def Let_def by auto
  moreover have "\<lfloor>s\<rfloor> \<le> rne s" unfolding rne_def Let_def by auto
  ultimately show ?thesis by linarith
qed

lemma rne_minus: "rne (- r) = - rne r"
proof (cases "r = of_int \<lfloor>r\<rfloor>")
  case True
  then obtain z where "r = of_int z" by metis
  then show ?thesis by (simp flip: of_int_minus)
next
  case False
  then have fr: "of_int \<lfloor>r\<rfloor> < r" by (metis of_int_floor_le order_less_le)
  have fl: "\<lfloor>- r\<rfloor> = - \<lfloor>r\<rfloor> - 1"
    using False by (simp add: floor_minus ceiling_altdef)
  show ?thesis
    unfolding rne_def Let_def fl using fr floor_correct [of r]
    by (auto; linarith?)
qed

lemma expo_minus [simp]: "expo (- x) = expo x"
  by (simp add: expo_def)

lemma fl64_minus: "fl64 (- x) = - fl64 x"
  by (simp add: fl64_def rne_minus flip: minus_mult_left)

lemma fl64_zero [simp]: "fl64 0 = 0"
  by (simp add: fl64_def)

lemma expo_scale:
  assumes "x \<noteq> 0"
  shows "expo (x * 2 powi e) = expo x + e"
proof (rule expo_eq)
  show "x * 2 powi e \<noteq> 0" using assms by simp
  have p: "(0::real) < 2 powi e" by simp
  have "2 powi (expo x + e) = 2 powi (expo x) * (2::real) powi e" by (simp add: power_int_add)
  also have "\<dots> \<le> \<bar>x\<bar> * 2 powi e" using expo_bounds(1) [OF assms] p by simp
  finally show "2 powi (expo x + e) \<le> \<bar>x * 2 powi e\<bar>" by (simp add: abs_mult)
  have "\<bar>x\<bar> * 2 powi e < 2 powi (expo x + 1) * (2::real) powi e"
    using expo_bounds(2) [OF assms] p by simp
  also have "\<dots> = 2 powi (expo x + e + 1)" by (simp add: power_int_add)
  finally show "\<bar>x * 2 powi e\<bar> < 2 powi (expo x + e + 1)" by (simp add: abs_mult)
qed

lemma fl64_scale: "fl64 (x * 2 powi e) = fl64 x * 2 powi e"
proof (cases "x = 0")
  case True
  then show ?thesis by simp
next
  case False
  have a: "x * 2 powi e * 2 powi (52 - (expo x + e)) = x * 2 powi (52 - expo x)"
    by (simp add: power_int_add power_int_diff field_simps)
  have b: "(2::real) powi (expo x + e - 52) = 2 powi (expo x - 52) * 2 powi e"
    by (simp add: power_int_add power_int_diff field_simps)
  show ?thesis using False by (simp add: fl64_def expo_scale a b)
qed

lemma fl64_pos_range:
  assumes "0 < x"
  shows "2 powi (expo x) \<le> fl64 x" "fl64 x \<le> 2 powi (expo x + 1)"
proof -
  let ?e = "expo x"
  let ?s = "x * 2 powi (52 - ?e)"
  have x0: "x \<noteq> 0" using assms by simp
  have p: "(0::real) < 2 powi (52 - ?e)" by simp
  have lo: "2 ^ 52 \<le> ?s"
  proof -
    have "2 powi ?e * 2 powi (52 - ?e) \<le> ?s"
      using expo_bounds(1) [OF x0] assms p by simp
    then show ?thesis by (simp flip: power_int_add)
  qed
  have hi: "?s \<le> 2 ^ 53"
  proof -
    have "?s \<le> 2 powi (?e + 1) * 2 powi (52 - ?e)"
      using expo_bounds(2) [OF x0] assms p by simp
    then show ?thesis by (simp flip: power_int_add)
  qed
  have "rne (of_int (2 ^ 52)) \<le> rne ?s" by (rule rne_mono) (use lo in simp)
  then have klo: "(2::int) ^ 52 \<le> rne ?s" by (simp only: rne_of_int)
  have "rne ?s \<le> rne (of_int (2 ^ 53))" by (rule rne_mono) (use hi in simp)
  then have khi: "rne ?s \<le> (2::int) ^ 53" by (simp only: rne_of_int)
  have q: "(0::real) < 2 powi (?e - 52)" by simp
  have "2 ^ 52 * 2 powi (?e - 52) \<le> of_int (rne ?s) * (2::real) powi (?e - 52)"
    using klo q by (simp add: of_int_le_iff [of "2 ^ 52" "rne ?s", simplified])
  then show "2 powi ?e \<le> fl64 x"
    using x0 by (simp add: fl64_def power_int_diff)
  have "of_int (rne ?s) * (2::real) powi (?e - 52) \<le> 2 ^ 53 * 2 powi (?e - 52)"
    using khi q by (simp add: of_int_le_iff [of "rne ?s" "2 ^ 53", simplified])
  then show "fl64 x \<le> 2 powi (?e + 1)"
    using x0 by (simp add: fl64_def power_int_diff power_int_add)
qed

lemma fl64_pos: "0 < x \<Longrightarrow> 0 < fl64 x"
proof -
  assume "0 < x"
  from fl64_pos_range(1) [OF this] have "2 powi (expo x) \<le> fl64 x" .
  moreover have "(0::real) < 2 powi (expo x)" by simp
  ultimately show ?thesis by linarith
qed

lemma fl64_nonneg: "0 \<le> x \<Longrightarrow> 0 \<le> fl64 x"
  using fl64_pos [of x] by (cases "x = 0") (simp_all add: less_eq_real_def)

lemma pow2_less_iff: "(2::real) powi a < 2 powi b \<longleftrightarrow> a < b"
proof
  assume l: "(2::real) powi a < 2 powi b"
  show "a < b"
  proof (rule ccontr)
    assume "\<not> a < b"
    then have "b \<le> a" by simp
    then have "(2::real) powi b \<le> 2 powi a" by (rule power_int_increasing) simp
    then show False using l by simp
  qed
next
  assume "a < b"
  then show "(2::real) powi a < 2 powi b" by (rule power_int_strict_increasing) simp
qed

lemma pow2_le_iff: "(2::real) powi a \<le> 2 powi b \<longleftrightarrow> a \<le> b"
  using pow2_less_iff [of b a] by (simp add: not_less [symmetric])

lemma expo_mono_pos:
  assumes "0 < x" "x \<le> y"
  shows "expo x \<le> expo y"
proof -
  have x0: "x \<noteq> 0" and y0: "y \<noteq> 0" using assms by simp_all
  have "2 powi (expo x) \<le> x" using expo_bounds(1) [OF x0] assms(1) by simp
  also have "x \<le> y" by fact
  also have "y < 2 powi (expo y + 1)" using expo_bounds(2) [OF y0] assms by simp
  finally have "(2::real) powi (expo x) < 2 powi (expo y + 1)" .
  then have "expo x < expo y + 1" by (simp only: pow2_less_iff)
  then show ?thesis by simp
qed

lemma fl64_mono_pos:
  assumes "0 < x" "x \<le> y"
  shows "fl64 x \<le> fl64 y"
proof (cases "expo x = expo y")
  case True
  have y: "0 < y" using assms by simp
  have p: "(0::real) < 2 powi (52 - expo y)" by simp
  have "x * 2 powi (52 - expo y) \<le> y * 2 powi (52 - expo y)" using assms(2) p by simp
  then have "rne (x * 2 powi (52 - expo y)) \<le> rne (y * 2 powi (52 - expo y))" by (rule rne_mono)
  then have "real_of_int (rne (x * 2 powi (52 - expo y))) * 2 powi (expo y - 52)
      \<le> real_of_int (rne (y * 2 powi (52 - expo y))) * 2 powi (expo y - 52)"
    by simp
  then show ?thesis using assms y by (simp add: fl64_def True)
next
  case False
  then have "expo x + 1 \<le> expo y" using expo_mono_pos [OF assms] by simp
  then have "(2::real) powi (expo x + 1) \<le> 2 powi (expo y)"
    by (simp add: power_int_increasing)
  moreover have "fl64 x \<le> 2 powi (expo x + 1)" using fl64_pos_range(2) [OF assms(1)] .
  moreover have "2 powi (expo y) \<le> fl64 y" using fl64_pos_range(1) [of y] assms by simp
  ultimately show ?thesis by linarith
qed

lemma fl64_mono:
  assumes "x \<le> y"
  shows "fl64 x \<le> fl64 y"
proof -
  consider "0 < x" | "x \<le> 0" "0 \<le> y" | "y < 0" by linarith
  then show ?thesis
  proof cases
    case 1
    then show ?thesis using fl64_mono_pos assms by simp
  next
    case 2
    have "fl64 x \<le> 0" using fl64_nonneg [of "- x"] 2(1) by (simp add: fl64_minus)
    moreover have "0 \<le> fl64 y" using fl64_nonneg 2(2) by simp
    ultimately show ?thesis by simp
  next
    case 3
    have "fl64 (- y) \<le> fl64 (- x)" using fl64_mono_pos [of "- y" "- x"] 3 assms by simp
    then show ?thesis by (simp add: fl64_minus)
  qed
qed

lemma fl64_of_int:
  assumes "\<bar>n\<bar> \<le> 2 ^ 53"
  shows "fl64 (of_int n) = of_int n"
proof (cases "n = 0")
  case True
  then show ?thesis by simp
next
  case False
  let ?x = "real_of_int n"
  have x0: "?x \<noteq> 0" using False by simp
  have one: "1 \<le> \<bar>?x\<bar>" using False by (simp flip: of_int_abs add: of_int_le_iff [of 1, simplified])
  have top: "\<bar>?x\<bar> \<le> 2 ^ 53"
    using assms by (simp flip: of_int_abs add: of_int_le_iff [of _ "2 ^ 53", simplified])
  have e0: "0 \<le> expo ?x"
  proof -
    have "(2::real) powi 0 \<le> \<bar>?x\<bar>" using one by simp
    also have "\<bar>?x\<bar> < 2 powi (expo ?x + 1)" using expo_bounds(2) [OF x0] .
    finally have "(0::int) < expo ?x + 1" by (simp only: pow2_less_iff)
    then show ?thesis by simp
  qed
  have e53: "expo ?x \<le> 53"
  proof -
    have "2 powi (expo ?x) \<le> \<bar>?x\<bar>" using expo_bounds(1) [OF x0] .
    also have "\<bar>?x\<bar> \<le> 2 powi 53" using top by simp
    finally show ?thesis by (simp only: pow2_le_iff)
  qed
  show ?thesis
  proof (cases "expo ?x \<le> 52")
    case True
    define p where "p = nat (52 - expo ?x)"
    have p: "52 - expo ?x = int p" using True by (simp add: p_def)
    have "?x * 2 powi (52 - expo ?x) = of_int (n * 2 ^ p)" by (simp add: p power_int_def)
    then have "rne (?x * 2 powi (52 - expo ?x)) = n * 2 ^ p" by (simp only: rne_of_int)
    moreover have "(2::real) powi (expo ?x - 52) = 1 / 2 ^ p"
      using p by (metis minus_diff_eq power_int_minus_divide power_int_of_nat)
    ultimately show ?thesis using x0 by (simp add: fl64_def)
  next
    case False
    then have e: "expo ?x = 53" using e53 by simp
    have "2 ^ 53 \<le> \<bar>?x\<bar>" using expo_bounds(1) [OF x0] by (simp add: e)
    then have "\<bar>?x\<bar> = 2 ^ 53" using top by simp
    then have "\<bar>n\<bar> = 2 ^ 53"
      by (metis of_int_abs of_int_eq_iff of_int_numeral of_int_power)
    then consider "n = 2 ^ 53" | "n = - (2 ^ 53)" by linarith
    then show ?thesis
    proof cases
      case 1
      have "rne (2 ^ 53 * 2 powi (- 1)) = rne (of_int (2 ^ 52))" by (simp add: power_int_minus)
      then have "rne (2 ^ 53 * 2 powi (- 1)) = 2 ^ 52" by (simp only: rne_of_int)
      then show ?thesis using e by (simp add: fl64_def 1)
    next
      case 2
      have "rne (- (2 ^ 53) * 2 powi (- 1)) = rne (of_int (- (2 ^ 52)))" by (simp add: power_int_minus)
      then have "rne (- (2 ^ 53) * 2 powi (- 1)) = - (2 ^ 52)" by (simp only: rne_of_int)
      then show ?thesis using e by (simp add: fl64_def 2)
    qed
  qed
qed

lemma fl64_repr:
  assumes "\<bar>n\<bar> \<le> 2 ^ 53"
  shows "fl64 (of_int n * 2 powi e) = of_int n * 2 powi e"
  by (simp add: fl64_scale fl64_of_int [OF assms])

lemma fl64_idem: "fl64 (fl64 x) = fl64 x"
proof (cases "x = 0")
  case True
  then show ?thesis by simp
next
  case False
  let ?k = "rne (x * 2 powi (52 - expo x))"
  have "\<bar>?k\<bar> \<le> 2 ^ 53"
  proof (cases "0 < x")
    case True
    let ?s = "x * 2 powi (52 - expo x)"
    have p: "(0::real) < 2 powi (52 - expo x)" by simp
    have "?s \<le> 2 powi (expo x + 1) * 2 powi (52 - expo x)"
      using expo_bounds(2) [OF False] True p by simp
    then have hi: "?s \<le> 2 ^ 53" by (simp flip: power_int_add)
    have "rne ?s \<le> rne (of_int (2 ^ 53))" by (rule rne_mono) (use hi in simp)
    then have "rne ?s \<le> 2 ^ 53" by (simp only: rne_of_int)
    moreover have "0 \<le> ?s" using True by simp
    then have "rne (of_int 0) \<le> rne ?s" by (intro rne_mono) simp
    then have "0 \<le> rne ?s" by (simp only: rne_of_int)
    ultimately show ?thesis by simp
  next
    case neg: False
    let ?s = "(- x) * 2 powi (52 - expo x)"
    have xn: "0 < - x" using neg False by simp
    have p: "(0::real) < 2 powi (52 - expo x)" by simp
    have "\<bar>x\<bar> = - x" using xn by simp
    then have "- x < 2 powi (expo x + 1)" using expo_bounds(2) [OF False] by simp
    then have "(- x) * 2 powi (52 - expo x) \<le> 2 powi (expo x + 1) * 2 powi (52 - expo x)"
      using p by (intro mult_right_mono) simp_all
    then have "?s \<le> 2 powi (expo x + 1) * 2 powi (52 - expo x)" .
    then have hi: "?s \<le> 2 ^ 53" by (simp flip: power_int_add)
    have "rne ?s \<le> rne (of_int (2 ^ 53))" by (rule rne_mono) (use hi in simp)
    then have a: "rne ?s \<le> 2 ^ 53" by (simp only: rne_of_int)
    have "0 \<le> (- x) * 2 powi (52 - expo x)" using xn p by (intro mult_nonneg_nonneg) simp_all
    then have "rne (of_int 0) \<le> rne ?s" by (intro rne_mono) simp
    then have b: "0 \<le> rne ?s" by (simp only: rne_of_int)
    have "rne ?s = - ?k" by (simp add: rne_minus flip: minus_mult_left)
    then show ?thesis using a b by simp
  qed
  from fl64_repr [OF this, of "expo x - 52"] show ?thesis using False by (simp add: fl64_def)
qed

lemma fl64_dyadic:
  assumes "\<bar>n\<bar> \<le> 2 ^ 53"
  shows "fl64 (of_int n / 2 ^ p) = of_int n / 2 ^ p"
  using fl64_repr [OF assms, of "- int p"] by (simp add: power_int_minus field_simps)

subsection \<open>The rounded operations\<close>

lemma r_sub_zero [simp]: "r_sub a 0 = a"
  by (simp add: r_sub_def)

lemma r_add_zero [simp]: "r_add a 0 = a"
  by (simp add: r_add_def)

lemma r_mul_zero [simp]: "r_mul a 0 = 0" "r_mul 0 b = 0"
  by (simp_all add: r_mul_def)

lemma r_sub_self [simp]: "r_sub a a = 0"
  by (simp add: r_sub_def)

lemma r_mul_nonneg: "0 \<le> a \<Longrightarrow> 0 \<le> b \<Longrightarrow> 0 \<le> r_mul a b"
  by (simp add: r_mul_def fl64_nonneg)

lemma r_mul_one_pos: "0 < w \<Longrightarrow> 0 < r_mul w 1"
  by (simp add: r_mul_def fl64_pos)

lemma r_mul_f64 [simp]: "fl64 (r_mul a b) = r_mul a b"
  by (simp add: r_mul_def fl64_idem)

lemma r_sub_f64: "fl64 a = a \<Longrightarrow> fl64 (r_sub a b) = r_sub a b"
  by (simp add: r_sub_def fl64_idem)


lemma r_sub_le:
  assumes "0 \<le> b" "fl64 a = a"
  shows "r_sub a b \<le> a"
proof (cases "b = 0")
  case True
  then show ?thesis by simp
next
  case False
  have "fl64 (a - b) \<le> fl64 a" by (rule fl64_mono) (use assms(1) in simp)
  then show ?thesis using False assms(2) by (simp add: r_sub_def)
qed

lemma r_add_ge:
  assumes "0 \<le> b" "fl64 a = a"
  shows "a \<le> r_add a b"
proof -
  have "fl64 a \<le> fl64 (a + b)" by (rule fl64_mono) (use assms(1) in simp)
  then show ?thesis using assms by (auto simp: r_add_def)
qed

lemma fl64_one [simp]: "fl64 1 = 1"
  using fl64_of_int [of 1] by simp

lemma fl64_numeral: "numeral n \<le> (2::int) ^ 53 \<Longrightarrow> fl64 (numeral n) = numeral n"
  using fl64_of_int [of "numeral n"] by simp

lemma fl64_half: "fl64 (x / 2) = fl64 x / 2"
  using fl64_scale [of x "- 1"] by simp

lemma fl64_quarter: "fl64 (x / 4) = fl64 x / 4"
  using fl64_scale [of x "- 2"] by (simp add: power_int_minus)

lemmas r_eval = r_add_def r_sub_def r_mul_def fl64_minus fl64_numeral fl64_half fl64_quarter

subsection \<open>Arrays and the two widening loops\<close>

declare expand_left.simps [simp del] expand_right.simps [simp del]
  left_expansions.simps [simp del] right_expansions.simps [simp del]

lemma length_bcast: "length a = length b \<Longrightarrow> length (bcast f a b) = length a"
  by (simp add: bcast_def)

lemma nth_bcast: "length a = length b \<Longrightarrow> j < length a \<Longrightarrow> bcast f a b ! j = f (a ! j) (b ! j)"
  by (simp add: bcast_def)

lemma length_vadd: "length a = length b \<Longrightarrow> length (vadd a b) = length a"
  by (simp add: vadd_def length_bcast)

lemma length_vsub: "length a = length b \<Longrightarrow> length (vsub a b) = length a"
  by (simp add: vsub_def length_bcast)

lemma nth_vadd: "length a = length b \<Longrightarrow> j < length a \<Longrightarrow> vadd a b ! j = r_add (a ! j) (b ! j)"
  by (simp add: vadd_def nth_bcast)

lemma nth_vsub: "length a = length b \<Longrightarrow> j < length a \<Longrightarrow> vsub a b ! j = r_sub (a ! j) (b ! j)"
  by (simp add: vsub_def nth_bcast)

lemma length_smul: "length (smul c a) = length a"
  by (simp add: smul_def)

lemma length_muls: "length (muls a c) = length a"
  by (simp add: muls_def)

lemma nth_smul: "j < length a \<Longrightarrow> smul c a ! j = r_mul c (a ! j)"
  by (simp add: smul_def)

lemma nth_muls: "j < length a \<Longrightarrow> muls a c ! j = r_mul (a ! j) c"
  by (simp add: muls_def)

lemma bcast_store: "length x = n \<Longrightarrow> bcast (\<lambda>a b. b) (replicate n 0) x = x"
  by (simp add: bcast_def list_eq_iff_nth_eq)

lemmas vec_simps = length_vadd length_vsub nth_vadd nth_vsub length_smul length_muls nth_smul nth_muls


lemma init_bracket_length:
  assumes "length x = length wy" "init_bracket w wy x U = (L, R)"
  shows "length L = length x" "length R = length x"
  using assms by (auto simp: init_bracket_def Let_def vec_simps)

lemma init_bracket_nth:
  assumes "length x = length wy" "init_bracket w wy x U = (L, R)" "j < length x"
  shows "L ! j = r_sub (x ! j) (r_mul (r_mul w (wy ! j)) U)"
    and "R ! j = r_add (L ! j) (r_mul w (wy ! j))"
  using assms by (auto simp: init_bracket_def Let_def vec_simps)

lemma expand_left_step:
  "J > 0 \<Longrightarrow> flt y (g L xargs) \<Longrightarrow>
   expand_left g xargs w wy y L J = expand_left g xargs w wy y (vsub L (smul w wy)) (J - 1)"
  by (subst expand_left.simps) simp

lemma expand_left_stop:
  "\<not> (J > 0 \<and> flt y (g L xargs)) \<Longrightarrow> expand_left g xargs w wy y L J = (L, J)"
  by (subst expand_left.simps) auto



lemma expand_left_length:
  "length L = length wy \<Longrightarrow> length (fst (expand_left g xargs w wy y L J)) = length L"
proof (induction g xargs w wy y L J rule: expand_left.induct)
  case (1 g xargs w wy y L J)
  show ?case
  proof (cases "J > 0 \<and> flt y (g L xargs)")
    case True
    then show ?thesis using 1 by (simp add: expand_left_step vec_simps)
  next
    case False
    then show ?thesis by (simp add: expand_left_stop)
  qed
qed

lemma expand_left_off:
  "length L = length wy \<Longrightarrow> j < length L \<Longrightarrow> wy ! j = 0 \<Longrightarrow>
   fst (expand_left g xargs w wy y L J) ! j = L ! j"
proof (induction g xargs w wy y L J rule: expand_left.induct)
  case (1 g xargs w wy y L J)
  show ?case
  proof (cases "J > 0 \<and> flt y (g L xargs)")
    case True
    then show ?thesis using 1 by (simp add: expand_left_step vec_simps)
  next
    case False
    then show ?thesis by (simp add: expand_left_stop)
  qed
qed




lemma expand_right_step:
  "K > 0 \<Longrightarrow> flt y (g R xargs) \<Longrightarrow>
   expand_right g xargs w wy y R K = expand_right g xargs w wy y (vadd R (smul w wy)) (K - 1)"
  by (subst expand_right.simps) simp

lemma expand_right_stop:
  "\<not> (K > 0 \<and> flt y (g R xargs)) \<Longrightarrow> expand_right g xargs w wy y R K = (R, K)"
  by (subst expand_right.simps) auto



lemma expand_right_length:
  "length R = length wy \<Longrightarrow> length (fst (expand_right g xargs w wy y R K)) = length R"
proof (induction g xargs w wy y R K rule: expand_right.induct)
  case (1 g xargs w wy y R K)
  show ?case
  proof (cases "K > 0 \<and> flt y (g R xargs)")
    case True
    then show ?thesis using 1 by (simp add: expand_right_step vec_simps)
  next
    case False
    then show ?thesis by (simp add: expand_right_stop)
  qed
qed

lemma expand_right_off:
  "length R = length wy \<Longrightarrow> j < length R \<Longrightarrow> wy ! j = 0 \<Longrightarrow>
   fst (expand_right g xargs w wy y R K) ! j = R ! j"
proof (induction g xargs w wy y R K rule: expand_right.induct)
  case (1 g xargs w wy y R K)
  show ?case
  proof (cases "K > 0 \<and> flt y (g R xargs)")
    case True
    then show ?thesis using 1 by (simp add: expand_right_step vec_simps)
  next
    case False
    then show ?thesis by (simp add: expand_right_stop)
  qed
qed




subsection \<open>Shrinkage: what an accepted point satisfies\<close>

lemma shrink_post:
  assumes "shrink g xargs rng y xc d Lbar Rbar n = Some r"
  shows "flt y (g (fst r) xargs) \<and> n < snd r \<and>
     (length Lbar = length Rbar \<longrightarrow>
        length (fst r) = length Lbar \<and>
        (\<forall>j<length Lbar. Lbar ! j = Rbar ! j \<longrightarrow> fst r ! j = Lbar ! j))"
proof (induct rule: shrink.raw_induct [OF _ assms])
  case (1 sh g xargs rng y xc d Lbar Rbar n r)
  define c where "c = vadd Lbar (smul (rng n) (vsub Rbar Lbar))"
  have len: "length Lbar = length Rbar \<Longrightarrow> length c = length Lbar"
    by (simp add: c_def vec_simps)
  have nth: "length Lbar = length Rbar \<Longrightarrow> j < length Lbar \<Longrightarrow> Lbar ! j = Rbar ! j \<Longrightarrow> c ! j = Lbar ! j" for j
    by (simp add: c_def vec_simps)
  show ?case
  proof (cases "flt y (g c xargs)")
    case True
    then have "r = (c, Suc n)" using 1(2) by (simp add: c_def Let_def)
    then show ?thesis using True len nth by simp
  next
    case acc: False
    show ?thesis
    proof (cases "c ! d < xc ! d")
      case True
      then have "sh g xargs rng y xc d c Rbar (Suc n) = Some r"
        using 1(2) acc by (simp add: c_def Let_def)
      from 1(1)[OF this] show ?thesis using len nth by auto
    next
      case False
      then have "sh g xargs rng y xc d Lbar c (Suc n) = Some r"
        using 1(2) acc by (simp add: c_def Let_def)
      from 1(1)[OF this] show ?thesis using len nth by auto
    qed
  qed
qed

lemma shrink_never:
  assumes "\<And>v. \<not> flt y (g v xargs)"
  shows "shrink g xargs rng y xc d Lbar Rbar n = None"
proof (cases "shrink g xargs rng y xc d Lbar Rbar n")
  case None
  then show ?thesis .
next
  case (Some r)
  from shrink_post [OF this] have "flt y (g (fst r) xargs)" by simp
  then show ?thesis using assms by simp
qed

subsection \<open>The bracket after stepping out\<close>

lemma step_out_shape:
  assumes "length x = length wy"
  shows "length (fst (fst (step_out g xargs w m wy y x U V))) = length x"
    and "length (fst (snd (step_out g xargs w m wy y x U V))) = length x"
proof -
  obtain L R where b: "init_bracket w wy x U = (L, R)" by (cases "init_bracket w wy x U")
  obtain J K where jk: "budgets m V = (J, K)" by (cases "budgets m V")
  have "length L = length wy" "length R = length wy"
    using init_bracket_length [OF assms b] assms by simp_all
  then show "length (fst (fst (step_out g xargs w m wy y x U V))) = length x"
    and "length (fst (snd (step_out g xargs w m wy y x U V))) = length x"
    using assms by (simp_all add: step_out_def b jk expand_left_length expand_right_length)
qed

lemma step_out_ends:
  assumes "init_bracket w wy x U = (L, R)" "budgets m V = (J, K)"
  shows "fst (fst (step_out g xargs w m wy y x U V)) = fst (expand_left g xargs w wy y L J)"
    and "fst (snd (step_out g xargs w m wy y x U V)) = fst (expand_right g xargs w wy y R K)"
  by (simp_all add: step_out_def assms)

lemma step_out_off_axis:
  assumes "length x = length wy0" "j < length x" "j \<noteq> d"
  shows "fst (fst (step_out g xargs w m ((smul 0 wy0)[d := 1]) y x U V)) ! j = x ! j"
    and "fst (snd (step_out g xargs w m ((smul 0 wy0)[d := 1]) y x U V)) ! j = x ! j"
proof -
  let ?wy = "(smul 0 wy0)[d := 1]"
  obtain L R where b: "init_bracket w ?wy x U = (L, R)" by (cases "init_bracket w ?wy x U")
  obtain J K where jk: "budgets m V = (J, K)" by (cases "budgets m V")
  have l: "length x = length ?wy" using assms(1) by (simp add: length_smul)
  have z: "?wy ! j = 0" using assms by (simp add: nth_smul)
  have len: "length L = length ?wy" "length R = length ?wy" "j < length L" "j < length R"
    using init_bracket_length [OF l b] l assms(2) by simp_all
  have L: "L ! j = x ! j" and R: "R ! j = x ! j"
    using init_bracket_nth [OF l b assms(2)] z by simp_all
  show "fst (fst (step_out g xargs w m ?wy y x U V)) ! j = x ! j"
    unfolding step_out_ends(1) [OF b jk] using expand_left_off [OF len(1,3) z] L by simp
  show "fst (snd (step_out g xargs w m ?wy y x U V)) ! j = x ! j"
    unfolding step_out_ends(2) [OF b jk] using expand_right_off [OF len(2,4) z] R by simp
qed

subsection \<open>The effect of one coordinate step\<close>

lemma coord_step_Some:
  assumes "coord_step g xargs rng w m d st = Some st'"
  shows "\<exists>x1 n.
     st' = \<lparr>xs = (xs st)[i st := x1],
            likelies = (likelies st)[i st := g (x0 st) xargs],
            x0 = x1,
            way = (smul 0 (way st))[d := 1],
            i = Suc (i st),
            k = n,
            trace = trace st @ [\<lparr>t_i = i st, t_d = d, t_x = x0 st, t_k = k st,
                                t_y = fadd (g (x0 st) xargs) (np_log (rng (k st)))\<rparr>]\<rparr>
     \<and> flt (fadd (g (x0 st) xargs) (np_log (rng (k st)))) (g x1 xargs)
     \<and> k st + 3 < n
     \<and> (length (x0 st) = length (way st) \<longrightarrow>
          length x1 = length (x0 st) \<and> (\<forall>j<length (x0 st). j \<noteq> d \<longrightarrow> x1 ! j = x0 st ! j))"
proof -
  let ?wy = "(smul 0 (way st))[d := 1]"
  let ?y = "fadd (g (x0 st) xargs) (np_log (rng (k st)))"
  let ?so = "step_out g xargs w m ?wy ?y (x0 st) (rng (k st + 1)) (rng (k st + 2))"
  obtain L J R K where so: "?so = ((L, J), (R, K))"
    by (metis surj_pair)
  obtain x1 n where sh: "shrink g xargs rng ?y (x0 st) d L R (k st + 3) = Some (x1, n)"
    using assms unfolding coord_step_def Let_def so by (auto split: option.splits)
  have st': "st' = \<lparr>xs = (xs st)[i st := x1],
            likelies = (likelies st)[i st := g (x0 st) xargs],
            x0 = x1, way = ?wy, i = Suc (i st), k = n,
            trace = trace st @ [\<lparr>t_i = i st, t_d = d, t_x = x0 st, t_k = k st, t_y = ?y\<rparr>]\<rparr>"
    using assms sh unfolding coord_step_def Let_def so by simp
  note post = shrink_post [OF sh]
  have frame: "length x1 = length (x0 st) \<and> (\<forall>j<length (x0 st). j \<noteq> d \<longrightarrow> x1 ! j = x0 st ! j)"
    if eq: "length (x0 st) = length (way st)"
  proof -
    have lw: "length (x0 st) = length ?wy" using eq by (simp add: length_smul)
    have lL: "length L = length (x0 st)" and lR: "length R = length (x0 st)"
      using step_out_shape [OF lw, of g xargs w m ?y "rng (k st + 1)" "rng (k st + 2)"] so by simp_all
    have off: "L ! j = x0 st ! j \<and> R ! j = x0 st ! j" if "j < length (x0 st)" "j \<noteq> d" for j
      using step_out_off_axis [OF eq that, of g xargs w m ?y "rng (k st + 1)" "rng (k st + 2)"] so
      by simp
    show ?thesis using post lL lR off by simp
  qed
  show ?thesis using st' post frame by auto
qed

text \<open>
  The log is write-only: a step started with another log changes the arrays, the current
  point, the index and the number of draws in the same way.
\<close>

lemma coord_step_ignores_trace:
  "map_option (\<lambda>s. (xs s, likelies s, x0 s, way s, i s, k s))
       (coord_step g xargs rng w m d (st\<lparr>trace := t\<rparr>))
     = map_option (\<lambda>s. (xs s, likelies s, x0 s, way s, i s, k s))
       (coord_step g xargs rng w m d st)"
  by (simp add: coord_step_def Let_def split: prod.splits option.splits)

subsection \<open>The invariants are kept by a step, a sweep and a run\<close>

lemma shapedD:
  assumes "shaped n ndim st"
  shows "length (xs st) = n" "length (likelies st) = n" "\<forall>j<n. length (xs st ! j) = ndim"
    "length (x0 st) = ndim" "length (way st) = ndim" "1 \<le> i st" "i st \<le> n"
    "x0 st = xs st ! (i st - 1)"
  using assms unfolding shaped_def by blast+

lemma coord_step_shaped:
  assumes "coord_step g xargs rng w m d st = Some st'" "shaped n ndim st" "i st < n"
  shows "shaped n ndim st'"
proof -
  from coord_step_Some [OF assms(1)] obtain x1 n' where
    st': "st' = \<lparr>xs = (xs st)[i st := x1],
            likelies = (likelies st)[i st := g (x0 st) xargs],
            x0 = x1, way = (smul 0 (way st))[d := 1], i = Suc (i st), k = n',
            trace = trace st @ [\<lparr>t_i = i st, t_d = d, t_x = x0 st, t_k = k st,
                                t_y = fadd (g (x0 st) xargs) (np_log (rng (k st)))\<rparr>]\<rparr>"
    and len: "length (x0 st) = length (way st) \<longrightarrow> length x1 = length (x0 st)"
    by blast
  note sh = shapedD [OF assms(2)]
  have l1: "length x1 = ndim" using len sh(4,5) by simp
  have rows: "\<forall>j<n. length ((xs st)[i st := x1] ! j) = ndim"
    using sh(1,3) l1 assms(3) by (simp add: nth_list_update)
  have last: "(xs st)[i st := x1] ! i st = x1" using sh(1) assms(3) by simp
  show ?thesis
    unfolding shaped_def st' using sh(1,2,5,6) assms(3) l1 rows last by (simp add: length_smul)
qed

lemma step_ok_cong:
  assumes "step_ok g xargs rng ndim c ls j e" "c' ! j = c ! j" "c' ! (j - 1) = c ! (j - 1)"
    "ls' ! j = ls ! j"
  shows "step_ok g xargs rng ndim c' ls' j e"
  using assms(1) unfolding step_ok_def assms(2-4) .

lemma coord_step_logged:
  assumes "coord_step g xargs rng w m d st = Some st'" "shaped n ndim st" "i st < n"
    and "logged g xargs rng ndim st" "d < ndim" "(i st - 1) mod ndim = d"
  shows "logged g xargs rng ndim st'"
proof -
  let ?y = "fadd (g (x0 st) xargs) (np_log (rng (k st)))"
  let ?e = "\<lparr>t_i = i st, t_d = d, t_x = x0 st, t_k = k st, t_y = ?y\<rparr>"
  from coord_step_Some [OF assms(1)] obtain x1 n' where
    st': "st' = \<lparr>xs = (xs st)[i st := x1],
            likelies = (likelies st)[i st := g (x0 st) xargs],
            x0 = x1, way = (smul 0 (way st))[d := 1], i = Suc (i st), k = n',
            trace = trace st @ [?e]\<rparr>"
    and acc: "flt ?y (g x1 xargs)"
    and frame: "length (x0 st) = length (way st) \<longrightarrow>
          length x1 = length (x0 st) \<and> (\<forall>j<length (x0 st). j \<noteq> d \<longrightarrow> x1 ! j = x0 st ! j)"
    by blast
  have sh: "length (xs st) = n" "length (likelies st) = n" "length (x0 st) = ndim"
    "length (way st) = ndim" "1 \<le> i st" "x0 st = xs st ! (i st - 1)"
    using shapedD [OF assms(2)] by blast+
  have lt: "length (trace st) = i st - 1" using assms(4) by (simp add: logged_def)
  have old: "step_ok g xargs rng ndim (xs st') (likelies st') j (trace st' ! (j - 1))"
    if "0 < j" "j < i st" for j
  proof -
    have "step_ok g xargs rng ndim (xs st) (likelies st) j (trace st ! (j - 1))"
      using assms(4) that by (simp add: logged_def)
    moreover have "trace st' ! (j - 1) = trace st ! (j - 1)"
      using that lt by (simp add: st' nth_append)
    moreover have "xs st' ! j = xs st ! j" "xs st' ! (j - 1) = xs st ! (j - 1)"
      "likelies st' ! j = likelies st ! j"
      using that by (simp_all add: st')
    ultimately show ?thesis by (simp add: step_ok_cong)
  qed
  have new: "step_ok g xargs rng ndim (xs st') (likelies st') (i st) (trace st' ! (i st - 1))"
  proof -
    have e: "trace st' ! (i st - 1) = ?e" using lt by (simp add: st' nth_append)
    have r1: "xs st' ! (i st) = x1" using sh(1) assms(3) by (simp add: st')
    have r0: "xs st' ! (i st - 1) = x0 st" using sh(5,6) by (simp add: st')
    have l1: "likelies st' ! (i st) = g (x0 st) xargs" using sh(2) assms(3) by (simp add: st')
    have fr: "\<forall>a<ndim. a \<noteq> d \<longrightarrow> x1 ! a = x0 st ! a" using frame sh(3,4) by simp
    show ?thesis
      unfolding e r1 r0 l1 step_ok_def using acc fr assms(5,6) r0 by simp
  qed
  have all: "step_ok g xargs rng ndim (xs st') (likelies st') j (trace st' ! (j - 1))"
    if "0 < j" "j < i st'" for j
  proof (cases "j = i st")
    case True
    then show ?thesis using new by simp
  next
    case False
    then have "j < i st" using that(2) by (simp add: st')
    then show ?thesis using old that(1) by simp
  qed
  have "length (trace st') = i st' - 1" using lt sh(5) by (simp add: st')
  then show ?thesis using all by (simp add: logged_def)
qed

lemma coord_step_anchored:
  assumes "coord_step g xargs rng w m d st = Some st'" "anchored g xargs x st" "1 \<le> i st"
  shows "anchored g xargs x st'"
proof -
  from coord_step_Some [OF assms(1)] obtain x1 where
    "xs st' = (xs st)[i st := x1]" "likelies st' = (likelies st)[i st := g (x0 st) xargs]"
    by auto
  then show ?thesis using assms(2,3) by (simp add: anchored_def)
qed

lemma coord_step_index:
  "coord_step g xargs rng w m d st = Some st' \<Longrightarrow> i st' = Suc (i st)"
  using coord_step_Some by fastforce

lemma coord_step_inv:
  assumes "coord_step g xargs rng w m d st = Some st'" "run_inv g xargs rng n ndim x st"
    and "i st < n" "d < ndim" "(i st - 1) mod ndim = d"
  shows "run_inv g xargs rng n ndim x st'"
proof -
  have s: "shaped n ndim st" and l: "logged g xargs rng ndim st" and a: "anchored g xargs x st"
    using assms(2) by (simp_all add: run_inv_def)
  have "1 \<le> i st" using shapedD(6) [OF s] .
  then show ?thesis
    unfolding run_inv_def
    using coord_step_shaped [OF assms(1) s assms(3)]
      coord_step_logged [OF assms(1) s assms(3) l assms(4,5)]
      coord_step_anchored [OF assms(1) a]
    by simp
qed

lemma sweep_inv:
  assumes "sweep g xargs rng w m (int n) [d..<ndim] st = Some st'"
    and "run_inv g xargs rng n ndim x st" "i st < n"
    and "(i st - 1) mod ndim = d mod ndim" "d \<le> ndim"
  shows "run_inv g xargs rng n ndim x st' \<and> (n \<le> i st' \<or> (i st' - 1) mod ndim = 0)"
  using assms
proof (induction "ndim - d" arbitrary: d st)
  case 0
  then have "d = ndim" by simp
  then show ?case using 0 by simp
next
  case (Suc z)
  then have d: "d < ndim" by simp
  then have up: "[d..<ndim] = d # [Suc d..<ndim]" by (simp add: upt_conv_Cons)
  have md: "(i st - 1) mod ndim = d" using Suc.prems(4) d by simp
  obtain s1 where c: "coord_step g xargs rng w m d st = Some s1"
    using Suc.prems(1) unfolding up by (auto split: option.splits)
  have inv1: "run_inv g xargs rng n ndim x s1"
    using coord_step_inv [OF c Suc.prems(2,3) d md] .
  have i1: "i s1 = Suc (i st)" using coord_step_index [OF c] .
  show ?case
  proof (cases "int n \<le> int (i s1)")
    case True
    then have "st' = s1" using Suc.prems(1) unfolding up by (simp add: c)
    then show ?thesis using inv1 True by simp
  next
    case False
    then have rec: "sweep g xargs rng w m (int n) [Suc d..<ndim] s1 = Some st'"
      using Suc.prems(1) unfolding up by (simp add: c)
    have lt: "i s1 < n" using False by simp
    have "1 \<le> i st" using Suc.prems(2) by (simp add: run_inv_def shaped_def)
    then have "i s1 - 1 = Suc (i st - 1)" using i1 by simp
    then have m1: "(i s1 - 1) mod ndim = Suc d mod ndim"
      using md by (metis mod_Suc_eq)
    have z: "z = ndim - Suc d" using Suc.hyps(2) by simp
    show ?thesis
      using Suc.hyps(1) [OF z rec inv1 lt m1] d by simp
  qed
qed

lemma sweeps_inv:
  assumes "sweeps g xargs rng w m N ndim st = Some st'"
    and "N = int n" "run_inv g xargs rng n ndim x st"
    and "(i st - 1) mod ndim = 0 \<or> n \<le> i st"
  shows "run_inv g xargs rng n ndim x st' \<and> i st' = n"
  using assms(2-)
proof (induct rule: sweeps.raw_induct [OF _ assms(1)])
  case (1 sw g xargs rng w m N ndim st st')
  have le: "i st \<le> n" using 1(4) by (simp add: run_inv_def shaped_def)
  show ?case
  proof (cases "i st < n")
    case False
    then have "st' = st" using 1(2,3) by simp
    then show ?thesis using 1(4) le False by simp
  next
    case True
    then obtain s1 where sw1: "sweep g xargs rng w m (int n) [0..<ndim] st = Some s1"
      and rec: "sw g xargs rng w m N ndim s1 = Some st'"
      using 1(2,3) by (auto simp: bind_eq_Some_conv)
    have "(i st - 1) mod ndim = 0 mod ndim" using 1(5) True by simp
    from sweep_inv [OF sw1 1(4) True this] have
      "run_inv g xargs rng n ndim x s1" "(i s1 - 1) mod ndim = 0 \<or> n \<le> i s1"
      by auto
    then show ?thesis using 1(1) [OF rec 1(3)] by simp
  qed
qed

lemma init_state_inv:
  assumes "length x = ndim" "1 \<le> n"
  shows "run_inv g xargs rng n ndim x (init_state g xargs n ndim x)"
proof -
  have "shaped n ndim (init_state g xargs n ndim x)"
    using assms by (simp add: shaped_def init_state_def bcast_store nth_list_update)
  moreover have "logged g xargs rng ndim (init_state g xargs n ndim x)"
    by (simp add: logged_def init_state_def)
  moreover have "anchored g xargs x (init_state g xargs n ndim x)"
    using assms by (simp add: anchored_def init_state_def bcast_store)
  ultimately show ?thesis by (simp add: run_inv_def)
qed

lemma slicer_run_Inr:
  assumes "slicer_run g ndim x xargs N w m rng = Some (Inr st)"
  shows "1 \<le> N" "0 \<le> ndim" "length x = nat ndim \<or> length x = 1"
    "sweeps g xargs rng w m N (nat ndim) (init_state g xargs (nat N) (nat ndim) x) = Some st"
  using assms by (auto simp: slicer_run_def split: if_splits)

lemma slicer_run_inv:
  assumes "slicer_run g ndim x xargs N w m rng = Some (Inr st)" "length x = nat ndim"
  shows "run_inv g xargs rng (nat N) (nat ndim) x st \<and> i st = nat N"
proof -
  note r = slicer_run_Inr [OF assms(1)]
  have n: "N = int (nat N)" "1 \<le> nat N" using r(1) by simp_all
  have "i (init_state g xargs (nat N) (nat ndim) x) = 1" by (simp add: init_state_def)
  then have "(i (init_state g xargs (nat N) (nat ndim) x) - 1) mod nat ndim = 0 \<or>
     nat N \<le> i (init_state g xargs (nat N) (nat ndim) x)" by simp
  from sweeps_inv [OF r(4) n(1) init_state_inv [OF assms(2) n(2)] this]
  show ?thesis .
qed

subsection \<open>Runs that never return\<close>

lemma flt_NaN: "\<not> flt a NaN"
  by (cases a) simp_all

lemma flt_NInf: "\<not> flt a NInf"
  by (cases a) simp_all

lemma coord_step_never:
  assumes "\<forall>v. g v xargs = NaN \<or> g v xargs = NInf"
  shows "coord_step g xargs rng w m d st = None"
proof -
  have "shrink g xargs rng y xc d L R n = None" for y xc L R n
    by (rule shrink_never) (metis assms flt_NaN flt_NInf)
  then show ?thesis
    by (simp add: coord_step_def Let_def split: prod.splits)
qed

lemma sweeps_never:
  assumes "\<forall>v. g v xargs = NaN \<or> g v xargs = NInf" "int (i st) < N" "0 < ndim"
  shows "sweeps g xargs rng w m N ndim st = None"
proof -
  have "[0..<ndim] = 0 # [Suc 0..<ndim]" using assms(3) by (simp add: upt_conv_Cons)
  then have "sweep g xargs rng w m N [0..<ndim] st = None"
    using coord_step_never [of g xargs] assms(1) by simp
  then show ?thesis using assms(2) by (subst sweeps.simps) simp
qed

lemma slicer_run_never:
  assumes "\<forall>v. g v xargs = NaN \<or> g v xargs = NInf" "2 \<le> N" "1 \<le> ndim" "length x = nat ndim \<or> length x = 1"
  shows "slicer_run g ndim x xargs N w m rng = None"
proof -
  have "int (i (init_state g xargs (nat N) (nat ndim) x)) < N"
    using assms(2) by (simp add: init_state_def)
  moreover have "0 < nat ndim" using assms(3) by simp
  ultimately have "sweeps g xargs rng w m N (nat ndim) (init_state g xargs (nat N) (nat ndim) x) = None"
    using sweeps_never [of g xargs] assms(1) by blast
  then show ?thesis using assms(2,3,4) by (auto simp: slicer_run_def)
qed

lemma loggedD:
  assumes "logged g xargs rng ndim st" "0 < j" "j < i st"
  shows "step_ok g xargs rng ndim (xs st) (likelies st) j (trace st ! (j - 1))"
  using assms by (simp add: logged_def)



lemma slicer_never:
  assumes "\<forall>v. g v xargs = NaN \<or> g v xargs = NInf" "2 \<le> N" "1 \<le> ndim" "length x = nat ndim \<or> length x = 1"
  shows "slicer g ndim x xargs N w m rng = None"
  using slicer_run_never [of g xargs, OF assms] by (simp add: slicer_def)

subsection \<open>Three runs, step by step\<close>

lemma ln_half: "ln (1 / 2 :: real) < 0" "ln (1 / 2 :: real) < 1" "1 + ln (1 / 2 :: real) < 1"
proof -
  show a: "ln (1 / 2 :: real) < 0" by simp
  then show "ln (1 / 2 :: real) < 1" by linarith
  show "1 + ln (1 / 2 :: real) < 1" using a by linarith
qed

lemmas run_simps = Let_def vadd_def vsub_def smul_def muls_def bcast_def np_log_def
  box_density_def draws_def ln_half r_eval

lemma ex_step1:
  assumes "x0 st = [0, 0]" "k st = 0" "way st = [a, b]"
  shows "coord_step box_density () draws 1 2 0 st =
     Some \<lparr>xs = (xs st)[i st := [1 / 2, 0]], likelies = (likelies st)[i st := Fin 0],
           x0 = [1 / 2, 0], way = [1, 0], i = i st + 1, k = 5,
           trace = trace st @ [\<lparr>t_i = i st, t_d = 0, t_x = [0, 0], t_k = 0, t_y = Fin (ln (1 / 2))\<rparr>]\<rparr>"
  unfolding coord_step_def step_out_def init_bracket_def budgets_def assms
  apply (simp add: run_simps)
  apply (subst expand_left.simps)
  apply (subst expand_right.simps)
  apply (simp add: run_simps)
  apply (subst expand_right.simps)
  apply (simp add: run_simps)
  apply (subst shrink.simps)
  apply (simp add: run_simps)
  apply (subst shrink.simps)
  apply (simp add: run_simps)
  done

lemma ex_step2:
  assumes "x0 st = [1 / 2, 0]" "k st = 5" "way st = [a, b]"
  shows "coord_step box_density () draws 1 2 (Suc 0) st =
     Some \<lparr>xs = (xs st)[i st := [1 / 2, 1 / 2]], likelies = (likelies st)[i st := Fin 1],
           x0 = [1 / 2, 1 / 2], way = [0, 1], i = i st + 1, k = 9,
           trace = trace st @ [\<lparr>t_i = i st, t_d = Suc 0, t_x = [1 / 2, 0], t_k = 5,
                               t_y = Fin (1 + ln (1 / 2))\<rparr>]\<rparr>"
  unfolding coord_step_def step_out_def init_bracket_def budgets_def assms
  apply (simp add: run_simps)
  apply (subst expand_left.simps)
  apply (subst expand_right.simps)
  apply (simp add: run_simps)
  apply (subst expand_right.simps)
  apply (simp add: run_simps)
  apply (subst shrink.simps)
  apply (simp add: run_simps)
  done

lemma upt2: "[0..<2] = [0, Suc 0]"
  by (simp add: upt_conv_Cons numeral_2_eq_2)

lemma ex_init3:
  "init_state box_density () 3 2 [0, 0] =
     \<lparr>xs = [[0, 0], [0, 0], [0, 0]], likelies = [Fin 0, Fin 0, Fin 0], x0 = [0, 0],
      way = [0, 0], i = 1, k = 0, trace = []\<rparr>"
  by (simp add: init_state_def eval_nat_numeral bcast_def box_density_def)

lemma ex_init2:
  "init_state box_density () 2 2 [0, 0] =
     \<lparr>xs = [[0, 0], [0, 0]], likelies = [Fin 0, Fin 0], x0 = [0, 0],
      way = [0, 0], i = 1, k = 0, trace = []\<rparr>"
  by (simp add: init_state_def eval_nat_numeral bcast_def box_density_def)

lemma ex_run3:
  "slicer_run box_density 2 [0, 0] () 3 1 2 draws =
     Some (Inr \<lparr>xs = [[0, 0], [1 / 2, 0], [1 / 2, 1 / 2]], likelies = [Fin 0, Fin 0, Fin 1],
           x0 = [1 / 2, 1 / 2], way = [0, 1], i = 3, k = 9,
           trace = [\<lparr>t_i = 1, t_d = 0, t_x = [0, 0], t_k = 0, t_y = Fin (ln (1 / 2))\<rparr>,
                    \<lparr>t_i = 2, t_d = 1, t_x = [1 / 2, 0], t_k = 5, t_y = Fin (1 + ln (1 / 2))\<rparr>]\<rparr>)"
  unfolding slicer_run_def
  apply (simp add: ex_init3)
  apply (subst sweeps.simps)
  apply (simp add: upt2 ex_step1 [where a = 0 and b = 0] ex_step2 [where a = 1 and b = 0])
  apply (subst sweeps.simps)
  apply simp
  done

lemma ex_run2:
  "slicer_run box_density 2 [0, 0] () 2 1 2 draws =
     Some (Inr \<lparr>xs = [[0, 0], [1 / 2, 0]], likelies = [Fin 0, Fin 0],
           x0 = [1 / 2, 0], way = [1, 0], i = 2, k = 5,
           trace = [\<lparr>t_i = 1, t_d = 0, t_x = [0, 0], t_k = 0, t_y = Fin (ln (1 / 2))\<rparr>]\<rparr>)"
  unfolding slicer_run_def
  apply (simp add: ex_init2)
  apply (subst sweeps.simps)
  apply (simp add: upt2 ex_step1 [where a = 0 and b = 0])
  apply (subst sweeps.simps)
  apply simp
  done


subsection \<open>Stepping out in the first run\<close>




subsection \<open>A run is its coordinate steps, one after the other\<close>








subsection \<open>Brackets that rounding moves\<close>



lemma fl64_below_one:
  "fl64 (9007199254740991 / 9007199254740992) = 9007199254740991 / 9007199254740992"
  using fl64_dyadic [of 9007199254740991 53] by simp

lemma fl64_above_minus_two:
  "fl64 (- (9007199254740991 / 4503599627370496)) = - (9007199254740991 / 4503599627370496)"
  using fl64_dyadic [of "- 9007199254740991" 52] by simp

lemma fl64_small_width:
  "fl64 (2251799813685249 / 5070602400912917605986812821504)
     = 2251799813685249 / 5070602400912917605986812821504"
  using fl64_dyadic [of 2251799813685249 102] by simp


lemma ex_tie_bracket:
  "init_bracket 1 ((smul 0 [0])[0 := 1]) [1] (9007199254740991 / 9007199254740992)
    = ([1 / 9007199254740992], [1])"
proof -
  have l: "fl64 (1 / 9007199254740992) = 1 / 9007199254740992"
    using fl64_dyadic [of 1 53] by simp
  have r: "fl64 (9007199254740993 / 9007199254740992) = 1"
    by (subst fl64_eval [where e = 0]) (simp_all add: rne_def Let_def)
  show ?thesis
    by (simp add: init_bracket_def Let_def vadd_def vsub_def smul_def muls_def bcast_def
        r_add_def r_sub_def r_mul_def fl64_below_one l r)
qed

lemma ex_below_bracket:
  "init_bracket (2251799813685249 / 5070602400912917605986812821504) ((smul 0 [0])[0 := 1])
      [- (9007199254740991 / 4503599627370496)] (9007199254740991 / 9007199254740992)
    = ([- (4503599627370497 / 2251799813685248)], [- 2])"
proof -
  have a: "fl64 (20282409603651677179346692341759 / 45671926166590716193865151022383844364247891968)
      = 4503599627370497 / 10141204801825835211973625643008"
    by (subst fl64_eval [where e = "- 51"]) (simp_all add: rne_def Let_def)
  have l: "fl64 (- (20282409603651672675747064971265 / 10141204801825835211973625643008))
      = - (4503599627370497 / 2251799813685248)"
    by (subst fl64_eval [where e = 1]) (simp_all add: rne_def Let_def)
  have r: "fl64 (- (10141204801825835211973625643007 / 5070602400912917605986812821504))
      = - 2"
    by (subst fl64_eval [where e = 0]) (simp_all add: rne_def Let_def)
  show ?thesis
    by (simp add: init_bracket_def Let_def vadd_def vsub_def smul_def muls_def bcast_def
        r_add_def r_sub_def r_mul_def fl64_small_width a l r)
qed


subsection \<open>The steps of the first run\<close>


subsection \<open>Reading the invariants off a result\<close>

lemma step_okD:
  assumes "step_ok g xargs rng ndim c ls j e"
  shows "t_i e = j" "t_d e = (j - 1) mod ndim" "t_d e < ndim" "t_x e = c ! (j - 1)"
    "t_y e = fadd (g (c ! (j - 1)) xargs) (np_log (rng (t_k e)))"
    "flt (t_y e) (g (c ! j) xargs)" "ls ! j = g (c ! (j - 1)) xargs"
    "\<forall>a<ndim. a \<noteq> t_d e \<longrightarrow> c ! j ! a = c ! (j - 1) ! a"
  using assms unfolding step_ok_def by blast+

lemma slicer_run_step_ok:
  assumes "slicer_run g ndim x xargs N w m rng = Some (Inr st)" "length x = nat ndim"
    and "0 < j" "j < nat N"
  shows "step_ok g xargs rng (nat ndim) (xs st) (likelies st) j (trace st ! (j - 1))"
proof -
  from slicer_run_inv [OF assms(1,2)] have "logged g xargs rng (nat ndim) st" "i st = nat N"
    by (simp_all add: run_inv_def)
  then show ?thesis using loggedD [of g xargs rng "nat ndim" st j] assms(3,4) by simp
qed

lemma slicer_Inr:
  assumes "slicer g ndim x xargs N w m rng = Some (Inr (c, ls))"
  shows "\<exists>st. slicer_run g ndim x xargs N w m rng = Some (Inr st) \<and> c = xs st \<and> ls = likelies st"
  using assms unfolding slicer_def
  by (cases "slicer_run g ndim x xargs N w m rng") (auto simp: map_sum_def split: sum.splits)

lemma ex_slicer3:
  "slicer box_density 2 [0, 0] () 3 1 2 draws =
     Some (Inr ([[0, 0], [1 / 2, 0], [1 / 2, 1 / 2]], [Fin 0, Fin 0, Fin 1]))"
  by (simp add: slicer_def ex_run3)

section \<open>The claims\<close>

text \<open>
  Claim C1. In a returned run, every row \<open>j > 0\<close> of the chain lies strictly above the
  slice height of the step that wrote it: the log entry of that step carries the index
  \<open>j\<close>, the point before the move (row \<open>j - 1\<close>) and the height
  \<open>y = g(row j - 1) + log(U1)\<close>, where \<open>U1\<close> is the first draw of the step, and
  \<open>y < g(row j)\<close> holds as a float comparison.
\<close>

theorem accepted_above_slice:
  assumes "slicer_run g ndim x xargs N w m rng = Some (Inr st)" "length x = nat ndim"
    and "0 < j" "j < nat N"
  shows "t_i (trace st ! (j - 1)) = j
     \<and> t_x (trace st ! (j - 1)) = xs st ! (j - 1)
     \<and> t_y (trace st ! (j - 1)) = fadd (g (xs st ! (j - 1)) xargs) (np_log (rng (t_k (trace st ! (j - 1)))))
     \<and> flt (t_y (trace st ! (j - 1))) (g (xs st ! j) xargs)"
  using step_okD(1,4,5,6) [OF slicer_run_step_ok [OF assms]] by blast

theorem accepted_above_slice_witness:
  "slicer_run box_density 2 [0, 0] () 3 1 2 draws \<noteq> None
   \<and> flt (Fin (ln (1 / 2))) (box_density [1 / 2, 0] ())
   \<and> flt (Fin (1 + ln (1 / 2))) (box_density [1 / 2, 1 / 2] ())"
  using accepted_above_slice [OF ex_run3, of 1] accepted_above_slice [OF ex_run3, of 2] ex_run3
  by (simp add: box_density_def draws_def np_log_def)

text \<open>
  Claim C2. Every coordinate step stores, at the index it finds, the accepted point in
  the chain and the log-density of the point it started from in the likelihoods, and
  moves the index on by one. So in what the caller receives, entry \<open>j \<ge> 1\<close> of the
  likelihoods is the log-density of row \<open>j - 1\<close> of the chain, the point before the
  move. It is not the log-density of row \<open>j\<close>: the witness is a run that returns
  three rows, on which entry 1 is the log-density of row 0 and differs from that of
  row 1.
\<close>

theorem likelihood_of_previous_point:
  assumes "slicer g ndim x xargs N w m rng = Some (Inr (c, ls))" "length x = nat ndim"
    and "1 \<le> j" "j < nat N"
  shows "ls ! j = g (c ! (j - 1)) xargs
     \<and> (\<forall>d st st'. coord_step g xargs rng w m d st = Some st' \<longrightarrow>
          likelies st' = (likelies st)[i st := g (x0 st) xargs]
          \<and> xs st' = (xs st)[i st := x0 st'] \<and> i st' = i st + 1)"
proof -
  from slicer_Inr [OF assms(1)] obtain st
    where r: "slicer_run g ndim x xargs N w m rng = Some (Inr st)"
      and c: "c = xs st" "ls = likelies st"
    by blast
  have "0 < j" using assms(3) by simp
  from step_okD(7) [OF slicer_run_step_ok [OF r assms(2) this assms(4)]]
  have prev: "ls ! j = g (c ! (j - 1)) xargs" by (simp add: c)
  have "likelies s' = (likelies s)[i s := g (x0 s) xargs]
          \<and> xs s' = (xs s)[i s := x0 s'] \<and> i s' = i s + 1"
    if "coord_step g xargs rng w m d s = Some s'" for d s s'
    using coord_step_Some [OF that] by auto
  then show ?thesis using prev by blast
qed

theorem likelihood_of_previous_point_witness:
  "slicer box_density 2 [0, 0] () 3 1 2 draws
     = Some (Inr ([[0, 0], [1 / 2, 0], [1 / 2, 1 / 2]], [Fin 0, Fin 0, Fin 1]))
   \<and> [Fin 0, Fin 0, Fin 1] ! 1 = box_density ([[0, 0], [1 / 2, 0], [1 / 2, 1 / 2]] ! 0) ()
   \<and> [Fin 0, Fin 0, Fin 1] ! 2 = box_density ([[0, 0], [1 / 2, 0], [1 / 2, 1 / 2]] ! 1) ()
   \<and> [Fin 0, Fin 0, Fin 1] ! 1 \<noteq> box_density ([[0, 0], [1 / 2, 0], [1 / 2, 1 / 2]] ! 1) ()"
  using likelihood_of_previous_point [OF ex_slicer3, of 1]
    likelihood_of_previous_point [OF ex_slicer3, of 2] ex_slicer3
  by (simp add: box_density_def)

text \<open>
  Claim C3. The shrinkage loop has no bound on its rounds, and some log-densities make
  the run hang: when the log-density is NaN at every point, the test \<open>y < g(x1)\<close> is
  false in every round, so the loop never returns from any bracket, and a run that has
  at least one step to make (\<open>N \<ge> 2\<close>, \<open>dim \<ge> 1\<close>) never returns.
\<close>

theorem shrinkage_unbounded:
  assumes "\<forall>v. g v xargs = NaN" "2 \<le> N" "1 \<le> ndim" "length x = nat ndim \<or> length x = 1"
  shows "shrink g xargs rng y xc d Lbar Rbar n = None \<and> slicer g ndim x xargs N w m rng = None"
proof -
  have "\<not> flt y (g v xargs)" for v using assms(1) by (simp add: flt_NaN)
  then have "shrink g xargs rng y xc d Lbar Rbar n = None" by (rule shrink_never)
  moreover have "\<forall>v. g v xargs = NaN \<or> g v xargs = NInf" using assms(1) by simp
  ultimately show ?thesis using slicer_never [of g xargs, OF _ assms(2-)] by simp
qed

theorem shrinkage_unbounded_witness:
  "shrink nan_density () draws (Fin 0) [0, 0] 0 [- 1, 0] [1, 0] 3 = None
   \<and> slicer nan_density 2 [0, 0] () 3 1 2 draws = None"
  using shrinkage_unbounded [of nan_density "()" 3 2 "[0, 0]" draws "Fin 0" "[0, 0]" 0 "[- 1, 0]" "[1, 0]" 3 1 2]
  by (simp add: nan_density_def)







text \<open>
  Claim C6. For \<open>N \<ge> 1\<close>, \<open>dim \<ge> 1\<close> and \<open>x0\<close> of length \<open>dim\<close>, row zero of
  the chain is \<open>x0\<close> and entry zero of the likelihoods is \<open>g(x0, xargs)\<close>: in the
  state the loops start from, and in whatever the caller receives.
\<close>

theorem chain_starts_at_x0:
  assumes "1 \<le> N" "1 \<le> ndim" "length x = nat ndim"
  shows "xs (init_state g xargs (nat N) (nat ndim) x) ! 0 = x
     \<and> likelies (init_state g xargs (nat N) (nat ndim) x) ! 0 = g x xargs
     \<and> (\<forall>c ls. slicer g ndim x xargs N w m rng = Some (Inr (c, ls)) \<longrightarrow>
          c ! 0 = x \<and> ls ! 0 = g x xargs)"
proof -
  have "1 \<le> nat N" using assms(1) by simp
  then have "anchored g xargs x (init_state g xargs (nat N) (nat ndim) x)"
    using init_state_inv [OF assms(3), of "nat N" g xargs rng] by (simp add: run_inv_def)
  moreover have "c ! 0 = x \<and> ls ! 0 = g x xargs"
    if "slicer g ndim x xargs N w m rng = Some (Inr (c, ls))" for c ls
  proof -
    from slicer_Inr [OF that] obtain st
      where r: "slicer_run g ndim x xargs N w m rng = Some (Inr st)"
        and c: "c = xs st" "ls = likelies st"
      by blast
    from slicer_run_inv [OF r assms(3)] have "anchored g xargs x st" by (simp add: run_inv_def)
    then show ?thesis by (simp add: anchored_def c)
  qed
  ultimately show ?thesis by (simp add: anchored_def)
qed

theorem chain_starts_at_x0_witness:
  "slicer box_density 2 [0, 0] () 3 1 2 draws
     = Some (Inr ([[0, 0], [1 / 2, 0], [1 / 2, 1 / 2]], [Fin 0, Fin 0, Fin 1]))
   \<and> [[0, 0], [1 / 2, 0], [1 / 2, 1 / 2]] ! 0 = [0, 0 :: real]
   \<and> [Fin 0, Fin 0, Fin 1] ! 0 = box_density [0, 0] ()"
  using chain_starts_at_x0 [of 3 2 "[0, 0]" box_density "()" 1 2 draws] ex_slicer3
  by simp






text \<open>
  Claim C9, as amended. For \<open>w > 0\<close>, a draw \<open>U\<close> in \<open>[0, 1)\<close> and a float64
  \<open>x0[d]\<close>, the first bracket along axis \<open>d\<close> is \<open>L[d] = x0[d] - (w * 1.0) * U\<close>
  and \<open>R[d] = L[d] + w * 1.0\<close>, each operation rounded to float64; it satisfies
  \<open>L[d] \<le> x0[d]\<close> and \<open>L[d] \<le> R[d]\<close>, and both ends agree with the current point in
  every other component. The right end need not lie above the current point. In the
  first counterexample \<open>x0 = 1.0\<close>, \<open>w = 1.0\<close> and \<open>U\<close> is the largest float64 below
  one: \<open>L\<close> is \<open>2^-53\<close> and \<open>L + 1.0\<close> rounds to \<open>1.0\<close>, so \<open>R[d] = x0[d]\<close> and
  the bracket is narrower than \<open>w\<close>. In the second \<open>x0\<close> is the float64 next above
  \<open>-2.0\<close> and \<open>w\<close> the float64 next above \<open>2^-51\<close>: \<open>R\<close> is \<open>-2.0\<close>, below
  \<open>x0\<close>.
\<close>

theorem init_bracket_contains:
  assumes "0 < w" "0 \<le> U" "U < 1" "d < length x" "length wy = length x"
    and "fl64 (x ! d) = x ! d"
    and "init_bracket w ((smul 0 wy)[d := 1]) x U = (L, R)"
  shows "L ! d = r_sub (x ! d) (r_mul (r_mul w 1) U) \<and> R ! d = r_add (L ! d) (r_mul w 1)
     \<and> L ! d \<le> x ! d \<and> L ! d \<le> R ! d
     \<and> length L = length x \<and> length R = length x
     \<and> (\<forall>j<length x. j \<noteq> d \<longrightarrow> L ! j = x ! j \<and> R ! j = x ! j)"
proof -
  let ?wy = "(smul 0 wy)[d := 1]"
  have l: "length x = length ?wy" using assms(5) by (simp add: length_smul)
  have wd: "?wy ! d = 1" using assms(4,5) by (simp add: length_smul)
  have wj: "?wy ! j = 0" if "j < length x" "j \<noteq> d" for j
    using that assms(5) by (simp add: nth_smul)
  have Ld: "L ! d = r_sub (x ! d) (r_mul (r_mul w 1) U)" and Rd: "R ! d = r_add (L ! d) (r_mul w 1)"
    using init_bracket_nth [OF l assms(7,4)] by (simp_all add: wd)
  have w1: "0 \<le> r_mul w 1" using assms(1) by (simp add: r_mul_nonneg)
  then have a: "0 \<le> r_mul (r_mul w 1) U" using assms(2) by (rule r_mul_nonneg)
  have below: "L ! d \<le> x ! d" unfolding Ld using a assms(6) by (rule r_sub_le)
  have "fl64 (L ! d) = L ! d" unfolding Ld using assms(6) by (rule r_sub_f64)
  then have order: "L ! d \<le> R ! d" unfolding Rd using w1 by (simp add: r_add_ge)
  have "L ! j = x ! j \<and> R ! j = x ! j" if "j < length x" "j \<noteq> d" for j
    using init_bracket_nth [OF l assms(7) that(1)] wj [OF that] by simp
  then show ?thesis using Ld Rd below order init_bracket_length [OF l assms(7)] by simp
qed

theorem init_bracket_contains_witness:
  "init_bracket 2 ((smul 0 [5, 7, 9])[1 := 1]) [10, 20, 30] (1 / 4) = ([10, 39 / 2, 30], [10, 43 / 2, 30])
   \<and> fl64 ([10, 20, 30] ! 1) = [10, 20, 30] ! 1
   \<and> ([10, 39 / 2, 30] :: vec) ! 1 \<le> [10, 20, 30] ! 1
   \<and> ([10, 39 / 2, 30] :: vec) ! 1 \<le> [10, 43 / 2, 30] ! 1"
proof -
  have e: "init_bracket 2 ((smul 0 [5, 7, 9])[1 := 1]) [10, 20, 30] (1 / 4)
             = ([10, 39 / 2, 30], [10, 43 / 2, 30])"
    by (simp add: init_bracket_def Let_def vadd_def vsub_def smul_def muls_def bcast_def r_eval)
  have f: "fl64 ([10, 20, 30] ! 1) = [10, 20, 30] ! 1" by (simp add: fl64_numeral)
  show ?thesis
    using init_bracket_contains [of 2 "1 / 4" 1 "[10, 20, 30]" "[5, 7, 9]", OF _ _ _ _ _ f e] e f
    by simp
qed

theorem init_bracket_contains_counterexample:
  "(0 :: real) \<le> 9007199254740991 / 9007199254740992
   \<and> (9007199254740991 / 9007199254740992 :: real) < 1
   \<and> fl64 (9007199254740991 / 9007199254740992) = 9007199254740991 / 9007199254740992
   \<and> init_bracket 1 ((smul 0 [0])[0 := 1]) [1] (9007199254740991 / 9007199254740992)
       = ([1 / 9007199254740992], [1])
   \<and> \<not> ([1] :: vec) ! 0 < [1] ! 0
   \<and> ([1] :: vec) ! 0 - [1 / 9007199254740992] ! 0 \<noteq> 1
   \<and> fl64 (- (9007199254740991 / 4503599627370496)) = - (9007199254740991 / 4503599627370496)
   \<and> fl64 (2251799813685249 / 5070602400912917605986812821504)
       = 2251799813685249 / 5070602400912917605986812821504
   \<and> init_bracket (2251799813685249 / 5070602400912917605986812821504) ((smul 0 [0])[0 := 1])
        [- (9007199254740991 / 4503599627370496)] (9007199254740991 / 9007199254740992)
       = ([- (4503599627370497 / 2251799813685248)], [- 2])
   \<and> ([- 2] :: vec) ! 0 < [- (9007199254740991 / 4503599627370496)] ! 0"
  by (simp add: fl64_below_one fl64_above_minus_two fl64_small_width ex_tie_bracket ex_below_bracket)

text \<open>
  Claim C10. In a returned run, the step that wrote row \<open>j \<ge> 1\<close> went along axis
  \<open>(j - 1) mod dim\<close>, and row \<open>j\<close> agrees with row \<open>j - 1\<close> in every other
  component.
\<close>

theorem one_component_per_step:
  assumes "slicer_run g ndim x xargs N w m rng = Some (Inr st)" "length x = nat ndim"
    and "1 \<le> j" "j < nat N"
  shows "t_d (trace st ! (j - 1)) = (j - 1) mod nat ndim
     \<and> (\<forall>a<nat ndim. a \<noteq> (j - 1) mod nat ndim \<longrightarrow> xs st ! j ! a = xs st ! (j - 1) ! a)"
proof -
  have "0 < j" using assms(3) by simp
  note ok = slicer_run_step_ok [OF assms(1,2) this assms(4)]
  show ?thesis using step_okD(2) [OF ok] step_okD(8) [OF ok] by simp
qed

theorem one_component_per_step_witness:
  "([[0, 0], [1 / 2, 0], [1 / 2, 1 / 2]] :: vec list) ! 1 ! 1 = [[0, 0], [1 / 2, 0], [1 / 2, 1 / 2]] ! 0 ! 1
   \<and> ([[0, 0], [1 / 2, 0], [1 / 2, 1 / 2]] :: vec list) ! 2 ! 0 = [[0, 0], [1 / 2, 0], [1 / 2, 1 / 2]] ! 1 ! 0"
  using one_component_per_step [OF ex_run3, of 1] one_component_per_step [OF ex_run3, of 2]
  by simp

end
